theory Spec2Isabelle
  imports Main
begin

section \<open>AttachmentManager (AttachmentManager.cpp)\<close>

subsection \<open>Promises, futures and their shared state\<close>

text \<open>
  The manager stores one \<^verbatim>\<open>std::promise<std::shared_ptr<std::iostream>>\<close> per attachment
  id and hands out the \<^verbatim>\<open>std::future\<close> of that promise. Promise and future refer to a
  common shared state, which outlives the promise. The shared states live in a store
  (a list, the address is the index); a promise and a future are references into it.
  The stream handle itself is the type parameter \<open>'a\<close>.
\<close>

datatype future_errc =
  broken_promise | future_already_retrieved | promise_already_satisfied | no_state

datatype 'a shared_state = NotReady | Value 'a | Exception future_errc

record promise =
  state_ref :: nat
  future_retrieved :: bool

text \<open>What \<^verbatim>\<open>future::get\<close> observes: a value, a stored exception, or nothing yet (it blocks).\<close>

datatype 'a observed = Blocks | Resolves 'a | Fails future_errc

definition future_get :: "nat \<Rightarrow> 'a shared_state list \<Rightarrow> 'a observed" where
  "future_get r ss =
     (if r < length ss then
        (case ss ! r of NotReady \<Rightarrow> Blocks | Value v \<Rightarrow> Resolves v | Exception e \<Rightarrow> Fails e)
      else Fails no_state)"

text \<open>
  \<^verbatim>\<open>~promise\<close> abandons the shared state: when it is not ready, an exception
  \<^verbatim>\<open>future_error(broken_promise)\<close> is stored in it; a ready state is left as it is.
\<close>

definition promise_destroy :: "promise \<Rightarrow> 'a shared_state list \<Rightarrow> 'a shared_state list" where
  "promise_destroy p ss =
     (if state_ref p < length ss \<and> ss ! state_ref p = NotReady
      then ss[state_ref p := Exception broken_promise] else ss)"

subsection \<open>The manager\<close>

text \<open>
  Time points of \<^verbatim>\<open>std::chrono::steady_clock\<close> are tick counts (\<open>int\<close>); the clock's
  period is nanoseconds. \<^verbatim>\<open>m_timeout\<close> is a count of minutes (\<^verbatim>\<open>std::chrono::minutes\<close> is
  signed). \<^verbatim>\<open>duration_cast\<close> truncates toward zero.
\<close>

definition ticks_per_minute :: int where
  "ticks_per_minute = 60000000000"

definition to_minutes :: "int \<Rightarrow> int" where
  "to_minutes d = (if 0 \<le> d then d div ticks_per_minute else - ((- d) div ticks_per_minute))"

text \<open>
  Modelled from the spec: the declaration of \<^verbatim>\<open>m_timeStamps\<close> (AttachmentManager.h) is not
  among the sources. The spec describes it as an ordered structure, oldest creation time
  first, that receives an entry on each provide; it is a list of (time, id) pairs kept
  sorted by time, where an entry with a key already present is placed after its equals
  (\<^verbatim>\<open>std::multimap::insert\<close>).
\<close>

fun timeStamps_insert :: "int \<times> string \<Rightarrow> (int \<times> string) list \<Rightarrow> (int \<times> string) list" where
  "timeStamps_insert e [] = [e]"
| "timeStamps_insert e (x # xs) =
     (if fst e < fst x then e # x # xs else x # timeStamps_insert e xs)"

record 'a manager =
  m_timeout :: int
  m_attachments :: "string \<rightharpoonup> promise"
  m_timeStamps :: "(int \<times> string) list"
  shared_states :: "'a shared_state list"

definition AttachmentManager :: "int \<Rightarrow> 'a manager" where
  "AttachmentManager timeout =
     \<lparr>m_timeout = timeout, m_attachments = Map.empty, m_timeStamps = [], shared_states = []\<rparr>"

text \<open>\<^verbatim>\<open>m_attachments.erase(key)\<close>: removes the entry and destroys its promise; no entry, no effect.\<close>

definition attachments_erase :: "string \<Rightarrow> 'a manager \<Rightarrow> 'a manager" where
  "attachments_erase k s =
     (case m_attachments s k of
        None \<Rightarrow> s
      | Some p \<Rightarrow> s\<lparr>m_attachments := (m_attachments s)(k := None),
                   shared_states := promise_destroy p (shared_states s)\<rparr>)"

text \<open>
  \<^verbatim>\<open>createAttachmentPromiseHelperLocked\<close>: a fresh promise (with a fresh shared state, not
  ready, future not retrieved) is stored under the id when the id has no entry. (The
  default promise that \<^verbatim>\<open>operator[]\<close> constructs first is replaced at once by the
  assignment and no one holds its future, so it is left out.)
\<close>

definition createAttachmentPromiseHelperLocked :: "string \<Rightarrow> 'a manager \<Rightarrow> 'a manager" where
  "createAttachmentPromiseHelperLocked attachmentId s =
     (if m_attachments s attachmentId = None
      then s\<lparr>m_attachments := (m_attachments s)(attachmentId \<mapsto>
                 \<lparr>state_ref = length (shared_states s), future_retrieved = False\<rparr>),
             shared_states := shared_states s @ [NotReady]\<rparr>
      else s)"

text \<open>
  \<^verbatim>\<open>createAttachmentReader\<close>: after the helper, \<^verbatim>\<open>get_future\<close> on the stored promise. A second
  \<^verbatim>\<open>get_future\<close> on one promise throws \<^verbatim>\<open>future_error(future_already_retrieved)\<close>. The result
  is the exception or the future (the address of the shared state), with the new state.
  The helper has stored an entry under the id, so the lookup finds one (lemma
  \<open>helper_creates\<close>); the branch for a missing entry is there for totality only.
\<close>

definition createAttachmentReader :: "string \<Rightarrow> 'a manager \<Rightarrow> (future_errc + nat) \<times> 'a manager" where
  "createAttachmentReader attachmentId s =
     (let s1 = createAttachmentPromiseHelperLocked attachmentId s in
      case m_attachments s1 attachmentId of
        None \<Rightarrow> (Inl no_state, s1)
      | Some p \<Rightarrow>
          if future_retrieved p then (Inl future_already_retrieved, s1)
          else (Inr (state_ref p),
                s1\<lparr>m_attachments := (m_attachments s1)(attachmentId \<mapsto> p\<lparr>future_retrieved := True\<rparr>)\<rparr>))"

text \<open>
  The eviction loop of \<^verbatim>\<open>createAttachment\<close>. The iterator starts at \<^verbatim>\<open>begin()\<close> and every
  visited entry is erased before the iterator moves, so the entries still to visit are the
  whole remaining index: the second argument. The loop ends at the end of the index or at
  the first entry whose age in minutes is below the timeout.
\<close>

fun evictLoop :: "int \<Rightarrow> (int \<times> string) list \<Rightarrow> 'a manager \<Rightarrow> 'a manager" where
  "evictLoop currentTime [] s = s\<lparr>m_timeStamps := []\<rparr>"
| "evictLoop currentTime (e # rest) s =
     (let timeGap = to_minutes (currentTime - fst e) in
      if timeGap \<ge> m_timeout s
      then evictLoop currentTime rest (attachments_erase (snd e) s)
      else s\<lparr>m_timeStamps := e # rest\<rparr>)"

text \<open>
  \<^verbatim>\<open>promise::set_value\<close>: stores the value in a shared state that is not ready; on a ready
  one it throws \<^verbatim>\<open>future_error(promise_already_satisfied)\<close> and changes nothing.
\<close>

definition set_value :: "promise \<Rightarrow> 'a \<Rightarrow> 'a manager \<Rightarrow> future_errc option \<times> 'a manager" where
  "set_value p v s =
     (if state_ref p < length (shared_states s) \<and> shared_states s ! state_ref p = NotReady
      then (None, s\<lparr>shared_states := (shared_states s)[state_ref p := Value v]\<rparr>)
      else (Some promise_already_satisfied, s))"

text \<open>
  \<^verbatim>\<open>createAttachment\<close>, with the reading of the clock as the argument \<open>currentTime\<close>. The
  result is the exception that leaves the function, if any, with the state at that point
  (the lock guard releases the mutex either way).
\<close>

definition createAttachment ::
  "string \<Rightarrow> 'a \<Rightarrow> int \<Rightarrow> 'a manager \<Rightarrow> future_errc option \<times> 'a manager" where
  "createAttachment attachmentId attachment currentTime s =
     (let s1 = createAttachmentPromiseHelperLocked attachmentId s;
          s2 = s1\<lparr>m_timeStamps := timeStamps_insert (currentTime, attachmentId) (m_timeStamps s1)\<rparr>;
          s3 = evictLoop currentTime (m_timeStamps s2) s2
      in case m_attachments s3 attachmentId of
           None \<Rightarrow> (None, s3)
         | Some p \<Rightarrow> set_value p attachment s3)"

definition releaseAttachment :: "string \<Rightarrow> 'a manager \<Rightarrow> 'a manager" where
  "releaseAttachment attachmentId s = attachments_erase attachmentId s"

subsection \<open>Notions used to state the properties\<close>

text \<open>
  The test of the eviction loop, as a predicate on an index entry: its age in whole
  minutes has reached the timeout.
\<close>

definition expired :: "int \<Rightarrow> int \<Rightarrow> int \<times> string \<Rightarrow> bool" where
  "expired timeout currentTime e = (timeout \<le> to_minutes (currentTime - fst e))"

text \<open>Sequences of calls of the three public operations; results are dropped, the state is kept.\<close>

datatype 'a call =
  CreateAttachmentReader string
| CreateAttachment string 'a int
| ReleaseAttachment string

fun perform :: "'a call \<Rightarrow> 'a manager \<Rightarrow> 'a manager" where
  "perform (CreateAttachmentReader k) s = snd (createAttachmentReader k s)"
| "perform (CreateAttachment k d now) s = snd (createAttachment k d now s)"
| "perform (ReleaseAttachment k) s = releaseAttachment k s"

fun run :: "'a call list \<Rightarrow> 'a manager \<Rightarrow> 'a manager" where
  "run [] s = s"
| "run (c # cs) s = run cs (perform c s)"

text \<open>A call that provides or releases the id \<open>k\<close>.\<close>

fun touches :: "string \<Rightarrow> 'a call \<Rightarrow> bool" where
  "touches k (CreateAttachmentReader i) = False"
| "touches k (CreateAttachment i d now) = (i = k)"
| "touches k (ReleaseAttachment i) = (i = k)"

text \<open>
  Every stored promise refers to an allocated shared state; two stored promises never
  refer to the same one; the id has no entry in the eviction index; the index is ordered.
\<close>

definition refs_bounded :: "'a manager \<Rightarrow> bool" where
  "refs_bounded s = (\<forall>k p. m_attachments s k = Some p \<longrightarrow> state_ref p < length (shared_states s))"

definition refs_distinct :: "'a manager \<Rightarrow> bool" where
  "refs_distinct s = (\<forall>i j p q. m_attachments s i = Some p \<longrightarrow> m_attachments s j = Some q
      \<longrightarrow> state_ref p = state_ref q \<longrightarrow> i = j)"

definition unindexed :: "string \<Rightarrow> 'a manager \<Rightarrow> bool" where
  "unindexed k s = (k \<notin> snd ` set (m_timeStamps s))"

definition invariant :: "'a manager \<Rightarrow> bool" where
  "invariant s = (refs_bounded s \<and> refs_distinct s \<and> sorted (map fst (m_timeStamps s)))"

section \<open>CapabilityAgent (CapabilityAgentTest.cpp and the base class it exercises)\<close>

subsection \<open>Directives and the mock handler of the tests\<close>

text \<open>The fields of \<^verbatim>\<open>AVSMessageHeader\<close> and the payload, as the tests construct them.\<close>

record directive =
  d_namespace :: string
  d_name :: string
  d_messageId :: string
  d_dialogRequestId :: string
  d_payload :: string

text \<open>\<^verbatim>\<open>MockCapabilityAgent::FunctionCalled\<close>.\<close>

datatype FunctionCalled =
  NONE | HANDLE_DIRECTIVE_IMMEDIATELY | PREHANDLE_DIRECTIVE | HANDLE_DIRECTIVE | CANCEL_DIRECTIVE

text \<open>
  The four virtual functions a capability agent overrides, each a transformer of the
  state of the handler (\<open>'h\<close>).
\<close>

record 'h handler =
  h_handleDirectiveImmediately :: "directive \<Rightarrow> 'h \<Rightarrow> 'h"
  h_preHandleDirective :: "directive \<Rightarrow> 'h \<Rightarrow> 'h"
  h_handleDirective :: "directive \<Rightarrow> 'h \<Rightarrow> 'h"
  h_cancelDirective :: "directive \<Rightarrow> 'h \<Rightarrow> 'h"

text \<open>
  \<^verbatim>\<open>MockCapabilityAgent\<close>: each override stores its own tag in \<^verbatim>\<open>m_functionCalled\<close>, which
  is the whole state of the mock.
\<close>

definition MockCapabilityAgent :: "FunctionCalled handler" where
  "MockCapabilityAgent =
     \<lparr>h_handleDirectiveImmediately = (\<lambda>d f. HANDLE_DIRECTIVE_IMMEDIATELY),
      h_preHandleDirective = (\<lambda>d f. PREHANDLE_DIRECTIVE),
      h_handleDirective = (\<lambda>d f. HANDLE_DIRECTIVE),
      h_cancelDirective = (\<lambda>d f. CANCEL_DIRECTIVE)\<rparr>"

text \<open>The directive every test of the source builds.\<close>

definition testDirective :: directive where
  "testDirective =
     \<lparr>d_namespace = ''SpeechRecognizer'', d_name = ''StopCapture'',
      d_messageId = ''MessageId_Test'', d_dialogRequestId = ''DialogRequestId_Test'',
      d_payload = ''payload_Test''\<rparr>"

subsection \<open>The base class\<close>

text \<open>
  Modelled from the spec: the base class \<^verbatim>\<open>CapabilityAgent\<close> (CapabilityAgent.cpp) is not
  among the sources, only its tests are. Following the spec (4.1): the agent keeps one
  record per pre-handled directive, keyed by message id. \<^verbatim>\<open>handleDirectiveImmediately\<close>
  passes the directive to the handler with no record. \<^verbatim>\<open>preHandleDirective\<close> creates the
  record and passes the directive to the handler. \<^verbatim>\<open>handleDirective\<close> of a message id
  returns true and invokes the handler when the record exists, and returns false without
  invoking it otherwise. \<^verbatim>\<open>cancelDirective\<close> invokes the handler and destroys the record
  when the record exists and does nothing otherwise. A terminal report destroys the
  record; a later one finds none and does nothing.
\<close>

record 'h agent =
  a_directives :: "string \<rightharpoonup> directive"
  a_handler :: 'h

definition CapabilityAgent :: "'h \<Rightarrow> 'h agent" where
  "CapabilityAgent h = \<lparr>a_directives = Map.empty, a_handler = h\<rparr>"

definition handleDirectiveImmediately :: "'h handler \<Rightarrow> directive \<Rightarrow> 'h agent \<Rightarrow> 'h agent" where
  "handleDirectiveImmediately H d s = s\<lparr>a_handler := h_handleDirectiveImmediately H d (a_handler s)\<rparr>"

definition preHandleDirective :: "'h handler \<Rightarrow> directive \<Rightarrow> 'h agent \<Rightarrow> 'h agent" where
  "preHandleDirective H d s =
     s\<lparr>a_directives := (a_directives s)(d_messageId d \<mapsto> d),
       a_handler := h_preHandleDirective H d (a_handler s)\<rparr>"

definition handleDirective :: "'h handler \<Rightarrow> string \<Rightarrow> 'h agent \<Rightarrow> bool \<times> 'h agent" where
  "handleDirective H messageId s =
     (case a_directives s messageId of
        None \<Rightarrow> (False, s)
      | Some d \<Rightarrow> (True, s\<lparr>a_handler := h_handleDirective H d (a_handler s)\<rparr>))"

definition cancelDirective :: "'h handler \<Rightarrow> string \<Rightarrow> 'h agent \<Rightarrow> 'h agent" where
  "cancelDirective H messageId s =
     (case a_directives s messageId of
        None \<Rightarrow> s
      | Some d \<Rightarrow> s\<lparr>a_directives := (a_directives s)(messageId := None),
                   a_handler := h_cancelDirective H d (a_handler s)\<rparr>)"

definition reportResult :: "string \<Rightarrow> 'h agent \<Rightarrow> 'h agent" where
  "reportResult messageId s = s\<lparr>a_directives := (a_directives s)(messageId := None)\<rparr>"

text \<open>Sequences of lifecycle calls on one agent.\<close>

datatype lifecycle =
  Immediately directive | PreHandle directive | Handle string | Cancel string | Report string

fun dispatch :: "'h handler \<Rightarrow> lifecycle \<Rightarrow> 'h agent \<Rightarrow> 'h agent" where
  "dispatch H (Immediately d) s = handleDirectiveImmediately H d s"
| "dispatch H (PreHandle d) s = preHandleDirective H d s"
| "dispatch H (Handle m) s = snd (handleDirective H m s)"
| "dispatch H (Cancel m) s = cancelDirective H m s"
| "dispatch H (Report m) s = reportResult m s"

fun dispatch_all :: "'h handler \<Rightarrow> lifecycle list \<Rightarrow> 'h agent \<Rightarrow> 'h agent" where
  "dispatch_all H [] s = s"
| "dispatch_all H (c # cs) s = dispatch_all H cs (dispatch H c s)"

fun prehandles :: "string \<Rightarrow> lifecycle \<Rightarrow> bool" where
  "prehandles m (PreHandle d) = (d_messageId d = m)"
| "prehandles m _ = False"

subsection \<open>The event envelope\<close>

text \<open>
  Modelled from the spec: \<^verbatim>\<open>CapabilityAgent::buildJsonEventString\<close> is not among the
  sources; the tests hold the strings it must produce. Following the spec (4.4) and those
  strings: the event has a header (namespace, name, messageId and, when it is not empty,
  dialogRequestId, in this order) and the payload, which is JSON text taken as it is. The
  context argument, when it is not empty, is the text of a JSON object that holds the
  context member (\<^verbatim>\<open>CONTEXT_TEST\<close> in the tests), and the event is added to that object as
  its last member: the text up to the closing brace, a comma, the event member and the
  closing brace. With an empty context the envelope holds the event member alone. The
  function generates the message id itself (a random number, by the comments of the
  tests); here the id it generated is the argument \<open>messageId\<close>, and nothing is said
  about how ids of different calls relate.
\<close>

definition eventHeader :: "string \<Rightarrow> string \<Rightarrow> string \<Rightarrow> string \<Rightarrow> string" where
  "eventHeader nameSpace eventName messageId dialogRequestIdValue =
     ''{\"namespace\":\"'' @ nameSpace @ ''\",\"name\":\"'' @ eventName
     @ ''\",\"messageId\":\"'' @ messageId @ ''\"''
     @ (if dialogRequestIdValue = [] then []
        else '',\"dialogRequestId\":\"'' @ dialogRequestIdValue @ ''\"'')
     @ ''}''"

definition buildJsonEventString ::
  "string \<Rightarrow> string \<Rightarrow> string \<Rightarrow> string \<Rightarrow> string \<Rightarrow> string \<Rightarrow> string" where
  "buildJsonEventString nameSpace eventName messageId dialogRequestIdValue jsonPayloadValue jsonContext =
     (if jsonContext = [] then ''{'' else butlast jsonContext @ '','')
     @ ''\"event\":{\"header\":''
     @ eventHeader nameSpace eventName messageId dialogRequestIdValue
     @ '',\"payload\":'' @ jsonPayloadValue @ ''}}''"

text \<open>The inputs and the expected strings of the tests.\<close>

definition PAYLOAD_SPEECH_RECOGNIZER :: string where
  "PAYLOAD_SPEECH_RECOGNIZER =
     ''{\"profile\":\"CLOSE_TALK\",\"format\":\"AUDIO_L16_RATE_16000_CHANNELS_1\"}''"

definition CONTEXT_TEST :: string where
  "CONTEXT_TEST =
     ''{\"context\":[{\"header\":{\"namespace\":\"SpeechSynthesizer\",\"name\":\"SpeechState\"},\"payload\":{\"playerActivity\":\"FINISHED\",\"offsetInMilliseconds\":0,\"token\":\"\"}}]}''"

definition testEventWithDialogReqIdAndContext :: string where
  "testEventWithDialogReqIdAndContext =
     ''{\"context\":[{\"header\":{\"namespace\":\"SpeechSynthesizer\",\"name\":\"SpeechState\"},\"payload\":{\"playerActivity\":\"FINISHED\",\"offsetInMilliseconds\":0,\"token\":\"\"}}],\"event\":{\"header\":{\"namespace\":\"SpeechRecognizer\",\"name\":\"Recognize\",\"messageId\":\"MessageId_Test\",\"dialogRequestId\":\"DialogRequestId_Test\"},\"payload\":{\"profile\":\"CLOSE_TALK\",\"format\":\"AUDIO_L16_RATE_16000_CHANNELS_1\"}}}''"

definition testEventWithDialogReqIdNoContext :: string where
  "testEventWithDialogReqIdNoContext =
     ''{\"event\":{\"header\":{\"namespace\":\"SpeechRecognizer\",\"name\":\"Recognize\",\"messageId\":\"MessageId_Test\",\"dialogRequestId\":\"DialogRequestId_Test\"},\"payload\":{\"profile\":\"CLOSE_TALK\",\"format\":\"AUDIO_L16_RATE_16000_CHANNELS_1\"}}}''"

definition testEventWithoutDialogReqIdOrContext :: string where
  "testEventWithoutDialogReqIdOrContext =
     ''{\"event\":{\"header\":{\"namespace\":\"SpeechRecognizer\",\"name\":\"Recognize\",\"messageId\":\"MessageId_Test\"},\"payload\":{\"profile\":\"CLOSE_TALK\",\"format\":\"AUDIO_L16_RATE_16000_CHANNELS_1\"}}}''"

definition testEventWithContextAndNoDialogReqId :: string where
  "testEventWithContextAndNoDialogReqId =
     ''{\"context\":[{\"header\":{\"namespace\":\"SpeechSynthesizer\",\"name\":\"SpeechState\"},\"payload\":{\"playerActivity\":\"FINISHED\",\"offsetInMilliseconds\":0,\"token\":\"\"}}],\"event\":{\"header\":{\"namespace\":\"SpeechRecognizer\",\"name\":\"Recognize\",\"messageId\":\"MessageId_Test\"},\"payload\":{\"profile\":\"CLOSE_TALK\",\"format\":\"AUDIO_L16_RATE_16000_CHANNELS_1\"}}}''"

section \<open>Auxiliary facts\<close>

lemma erase_fields [simp]:
  "m_timeout (attachments_erase k s) = m_timeout s"
  "m_timeStamps (attachments_erase k s) = m_timeStamps s"
  "m_attachments (attachments_erase k s) = (m_attachments s)(k := None)"
  "length (shared_states (attachments_erase k s)) = length (shared_states s)"
  by (auto simp: attachments_erase_def promise_destroy_def split: option.splits)

lemma evictLoop_timeout [simp]: "m_timeout (evictLoop now ts s) = m_timeout s"
  by (induction ts arbitrary: s) (auto simp: Let_def)

lemma evictLoop_length [simp]:
  "length (shared_states (evictLoop now ts s)) = length (shared_states s)"
  by (induction ts arbitrary: s) (auto simp: Let_def)

lemma evictLoop_timeStamps:
  "m_timeStamps (evictLoop now ts s) = dropWhile (expired (m_timeout s) now) ts"
  by (induction ts arbitrary: s) (auto simp: Let_def expired_def)

lemma evictLoop_attachments:
  "m_attachments (evictLoop now ts s) k =
     (if k \<in> snd ` set (takeWhile (expired (m_timeout s) now) ts) then None else m_attachments s k)"
  by (induction ts arbitrary: s) (auto simp: Let_def expired_def)

lemma to_minutes_mono: "a \<le> b \<Longrightarrow> to_minutes a \<le> to_minutes b"
proof -
  assume ab: "a \<le> b"
  have k: "(0::int) < ticks_per_minute" by (simp add: ticks_per_minute_def)
  show ?thesis
  proof (cases "0 \<le> a")
    case True
    with ab k show ?thesis by (simp add: to_minutes_def zdiv_mono1)
  next
    case False
    note na = this
    show ?thesis
    proof (cases "0 \<le> b")
      case True
      from na k have "0 \<le> (- a) div ticks_per_minute" by (simp add: pos_imp_zdiv_nonneg_iff)
      moreover from True k have "0 \<le> b div ticks_per_minute" by (simp add: pos_imp_zdiv_nonneg_iff)
      ultimately show ?thesis using na True by (simp add: to_minutes_def)
    next
      case False
      from ab have "- b \<le> - a" by simp
      then have "(- b) div ticks_per_minute \<le> (- a) div ticks_per_minute"
        using k by (rule zdiv_mono1)
      with na False show ?thesis by (simp add: to_minutes_def)
    qed
  qed
qed

lemma to_minutes_nonneg: "0 \<le> d \<Longrightarrow> 0 \<le> to_minutes d"
  by (simp add: to_minutes_def ticks_per_minute_def pos_imp_zdiv_nonneg_iff)

lemma to_minutes_0 [simp]: "to_minutes 0 = 0"
  by (simp add: to_minutes_def)

lemma expired_antimono:
  "fst a \<le> fst b \<Longrightarrow> expired t now b \<Longrightarrow> expired t now a"
  using to_minutes_mono [of "now - fst b" "now - fst a"] by (simp add: expired_def)

lemma set_timeStamps_insert [simp]: "set (timeStamps_insert e ts) = insert e (set ts)"
  by (induction ts) auto

lemma sorted_timeStamps_insert:
  "sorted (map fst ts) \<Longrightarrow> sorted (map fst (timeStamps_insert e ts))"
  by (induction ts) (auto simp: )

lemma sorted_dropWhile_filter:
  "sorted (map fst ts) \<Longrightarrow>
   dropWhile (expired t now) ts = filter (\<lambda>e. \<not> expired t now e) ts"
proof (induction ts)
  case Nil
  then show ?case by simp
next
  case (Cons e ts)
  show ?case
  proof (cases "expired t now e")
    case True
    with Cons show ?thesis by simp
  next
    case False
    have "\<forall>x\<in>set ts. \<not> expired t now x"
    proof
      fix x assume "x \<in> set ts"
      with Cons.prems have "fst e \<le> fst x" by auto
      with False show "\<not> expired t now x" using expired_antimono by blast
    qed
    then have "filter (\<lambda>e. \<not> expired t now e) ts = ts" by (simp add: filter_id_conv)
    with False show ?thesis by simp
  qed
qed

lemma sorted_takeWhile_filter:
  "sorted (map fst ts) \<Longrightarrow>
   set (takeWhile (expired t now) ts) = {e \<in> set ts. expired t now e}"
proof -
  assume s: "sorted (map fst ts)"
  have "set ts = set (takeWhile (expired t now) ts) \<union> set (dropWhile (expired t now) ts)"
    using set_append [of "takeWhile (expired t now) ts" "dropWhile (expired t now) ts"] by simp
  moreover have "\<forall>e\<in>set (takeWhile (expired t now) ts). expired t now e"
    by (auto dest: set_takeWhileD)
  moreover have "\<forall>e\<in>set (dropWhile (expired t now) ts). \<not> expired t now e"
    using sorted_dropWhile_filter [OF s, of t now] by simp
  ultimately show ?thesis by auto
qed

lemma helper_fields [simp]:
  "m_timeout (createAttachmentPromiseHelperLocked k s) = m_timeout s"
  "m_timeStamps (createAttachmentPromiseHelperLocked k s) = m_timeStamps s"
  by (auto simp: createAttachmentPromiseHelperLocked_def)

lemma helper_present: "m_attachments s k = Some p \<Longrightarrow> createAttachmentPromiseHelperLocked k s = s"
  by (simp add: createAttachmentPromiseHelperLocked_def)

lemma destroy_get:
  "future_get r (promise_destroy p ss) =
     (if r = state_ref p \<and> future_get r ss = Blocks then Fails broken_promise else future_get r ss)"
  by (auto simp: future_get_def promise_destroy_def split: shared_state.splits)

lemma erase_get:
  "future_get r (shared_states (attachments_erase k s)) =
     (case m_attachments s k of
        None \<Rightarrow> future_get r (shared_states s)
      | Some p \<Rightarrow> if r = state_ref p \<and> future_get r (shared_states s) = Blocks
                  then Fails broken_promise else future_get r (shared_states s))"
  by (auto simp: attachments_erase_def destroy_get split: option.splits)

lemma evictLoop_resolves:
  "future_get r (shared_states (evictLoop now ts s)) = Resolves v \<longleftrightarrow>
   future_get r (shared_states s) = Resolves v"
proof (induction ts arbitrary: s)
  case Nil
  then show ?case by simp
next
  case (Cons e ts)
  have "future_get r (shared_states (attachments_erase (snd e) s)) = Resolves v \<longleftrightarrow>
        future_get r (shared_states s) = Resolves v"
    by (auto simp: erase_get split: option.splits)
  with Cons show ?case by (simp add: Let_def)
qed

lemma evictLoop_kept:
  "\<forall>k p. m_attachments s k = Some p \<longrightarrow> state_ref p = r \<longrightarrow>
          k \<notin> snd ` set (takeWhile (expired (m_timeout s) now) ts) \<Longrightarrow>
   future_get r (shared_states (evictLoop now ts s)) = future_get r (shared_states s)"
proof (induction ts arbitrary: s)
  case Nil
  then show ?case by simp
next
  case (Cons e ts)
  show ?case
  proof (cases "expired (m_timeout s) now e")
    case False
    then show ?thesis by (simp add: Let_def expired_def)
  next
    case True
    have a: "future_get r (shared_states (attachments_erase (snd e) s)) = future_get r (shared_states s)"
      using Cons.prems True by (auto simp: erase_get split: option.splits)
    have b: "\<forall>k p. m_attachments (attachments_erase (snd e) s) k = Some p \<longrightarrow> state_ref p = r \<longrightarrow>
          k \<notin> snd ` set (takeWhile (expired (m_timeout (attachments_erase (snd e) s)) now) ts)"
      using Cons.prems True by (auto split: if_splits)
    from Cons.IH [OF b] a True show ?thesis by (simp add: Let_def expired_def)
  qed
qed

lemma not_evicted:
  assumes "0 < timeout"
    and "\<forall>e\<in>set ts. snd e = k \<longrightarrow> \<not> expired timeout now e"
  shows "k \<notin> snd ` set (takeWhile (expired timeout now) (timeStamps_insert (now, k) ts))"
proof
  assume "k \<in> snd ` set (takeWhile (expired timeout now) (timeStamps_insert (now, k) ts))"
  then obtain e where e: "e \<in> set (takeWhile (expired timeout now) (timeStamps_insert (now, k) ts))"
    and k: "snd e = k" by auto
  from e have ex: "expired timeout now e" by (auto dest: set_takeWhileD)
  from e have "e \<in> set (timeStamps_insert (now, k) ts)" by (auto dest: set_takeWhileD)
  then have "e = (now, k) \<or> e \<in> set ts" by simp
  then show False
  proof
    assume "e = (now, k)"
    with ex assms(1) show False by (simp add: expired_def)
  next
    assume "e \<in> set ts"
    with assms(2) k ex show False by blast
  qed
qed

lemma helper_resolves:
  "future_get r (shared_states (createAttachmentPromiseHelperLocked k s)) = Resolves v \<longleftrightarrow>
   future_get r (shared_states s) = Resolves v"
  by (auto simp: createAttachmentPromiseHelperLocked_def future_get_def nth_append
           split: shared_state.splits if_splits)

lemma set_value_fields [simp]:
  "m_attachments (snd (set_value p v s)) = m_attachments s"
  "m_timeStamps (snd (set_value p v s)) = m_timeStamps s"
  "m_timeout (snd (set_value p v s)) = m_timeout s"
  "length (shared_states (snd (set_value p v s))) = length (shared_states s)"
  by (simp_all add: set_value_def)

lemma createAttachment_fields:
  "m_timeStamps (snd (createAttachment k d now s)) =
     dropWhile (expired (m_timeout s) now) (timeStamps_insert (now, k) (m_timeStamps s))"
  "m_attachments (snd (createAttachment k d now s)) i =
        (if i \<in> snd ` set (takeWhile (expired (m_timeout s) now)
                            (timeStamps_insert (now, k) (m_timeStamps s)))
         then None else m_attachments (createAttachmentPromiseHelperLocked k s) i)"
  "m_timeout (snd (createAttachment k d now s)) = m_timeout s"
  by (simp_all add: createAttachment_def Let_def evictLoop_timeStamps
      evictLoop_attachments split: option.splits)


lemma reader_fields:
  "m_timeStamps (snd (createAttachmentReader k s)) = m_timeStamps s"
  "m_timeout (snd (createAttachmentReader k s)) = m_timeout s"
  "i \<noteq> k \<Longrightarrow> m_attachments (snd (createAttachmentReader k s)) i = m_attachments s i"
  by (auto simp: createAttachmentReader_def createAttachmentPromiseHelperLocked_def Let_def
      split: option.splits)

lemma reader_again:
  "m_attachments s k = Some p \<Longrightarrow> future_retrieved p \<Longrightarrow>
   snd (createAttachmentReader k s) = s"
  by (simp add: createAttachmentReader_def createAttachmentPromiseHelperLocked_def Let_def)

lemma set_dropWhile_subset: "set (dropWhile P xs) \<subseteq> set xs"
  by (induction xs) auto

lemma perform_keeps_slot:
  assumes "\<not> touches k c" and "unindexed k s"
    and "m_attachments s k = Some p" and "future_retrieved p"
  shows "m_attachments (perform c s) k = Some p \<and> unindexed k (perform c s)"
proof (cases c)
  case (CreateAttachmentReader i)
  show ?thesis
  proof (cases "i = k")
    case True
    with assms CreateAttachmentReader show ?thesis by (simp add: reader_again)
  next
    case False
    with assms CreateAttachmentReader show ?thesis by (simp add: reader_fields unindexed_def)
  qed
next
  case (CreateAttachment i d now)
  with assms(1) have ik: "i \<noteq> k" by simp
  let ?ts = "timeStamps_insert (now, i) (m_timeStamps s)"
  have nin: "k \<notin> snd ` set ?ts" using assms(2) ik by (auto simp: unindexed_def)
  have "set (takeWhile (expired (m_timeout s) now) ?ts) \<subseteq> set ?ts"
    by (auto dest: set_takeWhileD)
  with nin have n1: "k \<notin> snd ` set (takeWhile (expired (m_timeout s) now) ?ts)" by blast
  have "set (dropWhile (expired (m_timeout s) now) ?ts) \<subseteq> set ?ts"
    by (rule set_dropWhile_subset)
  with nin have n2: "k \<notin> snd ` set (dropWhile (expired (m_timeout s) now) ?ts)" by blast
  have "m_attachments (createAttachmentPromiseHelperLocked i s) k = m_attachments s k"
    using ik by (simp add: createAttachmentPromiseHelperLocked_def)
  with n1 n2 assms(3) CreateAttachment show ?thesis
    by (simp add: createAttachment_fields unindexed_def)
next
  case (ReleaseAttachment i)
  with assms show ?thesis by (simp add: releaseAttachment_def unindexed_def)
qed

lemma run_keeps_slot:
  "\<forall>c\<in>set cs. \<not> touches k c \<Longrightarrow> unindexed k s \<Longrightarrow>
   m_attachments s k = Some p \<Longrightarrow> future_retrieved p \<Longrightarrow>
   m_attachments (run cs s) k = Some p \<and> unindexed k (run cs s)"
proof (induction cs arbitrary: s)
  case Nil
  then show ?case by simp
next
  case (Cons c cs)
  from Cons.prems have "m_attachments (perform c s) k = Some p \<and> unindexed k (perform c s)"
    using perform_keeps_slot [of k c s p] by simp
  with Cons show ?case by simp
qed

lemma invariant_init: "invariant (AttachmentManager t)"
  by (simp add: invariant_def refs_bounded_def refs_distinct_def AttachmentManager_def)

lemma invariant_helper:
  "invariant s \<Longrightarrow> invariant (createAttachmentPromiseHelperLocked k s)"
proof (cases "m_attachments s k = None")
  case False
  then show "invariant s \<Longrightarrow> invariant (createAttachmentPromiseHelperLocked k s)"
    by (auto simp: createAttachmentPromiseHelperLocked_def)
next
  case True
  assume inv: "invariant s"
  let ?s' = "createAttachmentPromiseHelperLocked k s"
  have old: "\<And>i p. m_attachments s i = Some p \<Longrightarrow> state_ref p < length (shared_states s)"
    using inv by (simp add: invariant_def refs_bounded_def)
  have m: "\<And>i p. m_attachments ?s' i = Some p \<Longrightarrow>
      (i = k \<and> state_ref p = length (shared_states s)) \<or> (i \<noteq> k \<and> m_attachments s i = Some p)"
    using True by (auto simp: createAttachmentPromiseHelperLocked_def split: if_splits)
  have len: "length (shared_states ?s') = Suc (length (shared_states s))"
    using True by (simp add: createAttachmentPromiseHelperLocked_def)
  have b: "refs_bounded ?s'"
    unfolding refs_bounded_def len using m old by (metis less_Suc_eq)
  have d: "refs_distinct ?s'"
    unfolding refs_distinct_def
  proof (intro allI impI)
    fix i j p q
    assume a: "m_attachments ?s' i = Some p" "m_attachments ?s' j = Some q" "state_ref p = state_ref q"
    from m [OF a(1)] m [OF a(2)] show "i = j"
    proof (elim disjE conjE)
      assume "i = k" "j = k" then show ?thesis by simp
    next
      assume "i = k" "state_ref p = length (shared_states s)" "m_attachments s j = Some q"
      with old [of j q] a(3) show ?thesis by simp
    next
      assume "j = k" "state_ref q = length (shared_states s)" "m_attachments s i = Some p"
      with old [of i p] a(3) show ?thesis by simp
    next
      assume "m_attachments s i = Some p" "m_attachments s j = Some q"
      with inv a(3) show ?thesis unfolding invariant_def refs_distinct_def by blast
    qed
  qed
  have "m_timeStamps ?s' = m_timeStamps s" by simp
  with inv b d show "invariant ?s'" by (simp add: invariant_def)
qed

lemma invariant_erase: "invariant s \<Longrightarrow> invariant (attachments_erase k s)"
  unfolding invariant_def refs_bounded_def refs_distinct_def
  by (auto split: if_splits)

lemma sorted_dropWhile: "sorted (map f xs) \<Longrightarrow> sorted (map f (dropWhile P xs))"
  by (induction xs) auto

lemma invariant_index:
  "invariant s \<Longrightarrow> sorted (map fst ts) \<Longrightarrow> invariant (s\<lparr>m_timeStamps := ts\<rparr>)"
  by (simp add: invariant_def refs_bounded_def refs_distinct_def)

lemma invariant_evictLoop:
  "invariant s \<Longrightarrow> sorted (map fst ts) \<Longrightarrow> invariant (evictLoop now ts s)"
proof (induction ts arbitrary: s)
  case Nil
  then show ?case by (simp add: invariant_index)
next
  case (Cons e ts)
  from Cons.prems have st: "sorted (map fst ts)" by simp
  show ?case
  proof (cases "m_timeout s \<le> to_minutes (now - fst e)")
    case True
    with Cons.IH [OF invariant_erase [OF Cons.prems(1)] st] show ?thesis by (simp add: Let_def)
  next
    case False
    with Cons.prems show ?thesis by (simp add: Let_def invariant_index)
  qed
qed

lemma invariant_set_value: "invariant s \<Longrightarrow> invariant (snd (set_value p v s))"
  by (simp add: invariant_def refs_bounded_def refs_distinct_def set_value_def)

lemma invariant_reader: "invariant s \<Longrightarrow> invariant (snd (createAttachmentReader k s))"
proof -
  assume "invariant s"
  then have i: "invariant (createAttachmentPromiseHelperLocked k s)" by (rule invariant_helper)
  show ?thesis
    unfolding createAttachmentReader_def Let_def using i
    by (auto simp: invariant_def refs_bounded_def refs_distinct_def split: option.splits if_splits)
qed

lemma invariant_createAttachment: "invariant s \<Longrightarrow> invariant (snd (createAttachment k d now s))"
proof -
  assume "invariant s"
  then have i: "invariant (createAttachmentPromiseHelperLocked k s)" by (rule invariant_helper)
  let ?ts = "timeStamps_insert (now, k) (m_timeStamps (createAttachmentPromiseHelperLocked k s))"
  have st: "sorted (map fst ?ts)"
    using i by (simp add: invariant_def sorted_timeStamps_insert)
  have "invariant (evictLoop now ?ts (createAttachmentPromiseHelperLocked k s\<lparr>m_timeStamps := ?ts\<rparr>))"
    using invariant_evictLoop [OF invariant_index [OF i st] st] .
  then show ?thesis
    unfolding createAttachment_def Let_def
    by (auto split: option.splits simp: invariant_set_value)
qed

lemma invariant_perform: "invariant s \<Longrightarrow> invariant (perform c s)"
  by (cases c) (simp_all add: invariant_reader invariant_createAttachment releaseAttachment_def invariant_erase)

lemma invariant_run: "invariant s \<Longrightarrow> invariant (run cs s)"
  by (induction cs arbitrary: s) (simp_all add: invariant_perform)

lemma future_get_append: "r < length ss \<Longrightarrow> future_get r (ss @ xs) = future_get r ss"
  by (simp add: future_get_def nth_append)

lemma helper_get:
  "r < length (shared_states s) \<Longrightarrow>
   future_get r (shared_states (createAttachmentPromiseHelperLocked i s)) = future_get r (shared_states s)"
  by (simp add: createAttachmentPromiseHelperLocked_def future_get_append)

lemma reader_get:
  "r < length (shared_states s) \<Longrightarrow>
   future_get r (shared_states (snd (createAttachmentReader i s))) = future_get r (shared_states s)"
  using helper_get [of r s i]
  by (simp add: createAttachmentReader_def Let_def split: option.splits)

lemma set_value_get:
  "state_ref q \<noteq> r \<Longrightarrow>
   future_get r (shared_states (snd (set_value q v s))) = future_get r (shared_states s)"
  by (simp add: set_value_def future_get_def)

lemma perform_keeps_pending:
  assumes inv: "invariant s" and nt: "\<not> touches k c" and un: "unindexed k s"
    and slot: "m_attachments s k = Some p"
  shows "future_get (state_ref p) (shared_states (perform c s))
         = future_get (state_ref p) (shared_states s)"
proof -
  let ?r = "state_ref p"
  have bound: "?r < length (shared_states s)"
    using inv slot by (simp add: invariant_def refs_bounded_def)
  have dist: "\<And>i q. m_attachments s i = Some q \<Longrightarrow> state_ref q = ?r \<Longrightarrow> i = k"
    using inv slot unfolding invariant_def refs_distinct_def by blast
  show ?thesis
  proof (cases c)
    case (CreateAttachmentReader i)
    with bound show ?thesis by (simp add: reader_get)
  next
    case (ReleaseAttachment i)
    with nt have "i \<noteq> k" by simp
    with dist have "\<And>q. m_attachments s i = Some q \<Longrightarrow> state_ref q \<noteq> ?r" by blast
    with ReleaseAttachment show ?thesis
      by (auto simp: releaseAttachment_def erase_get split: option.splits)
  next
    case (CreateAttachment i d now)
    with nt have ik: "i \<noteq> k" by simp
    let ?s1 = "createAttachmentPromiseHelperLocked i s"
    let ?ts = "timeStamps_insert (now, i) (m_timeStamps s)"
    let ?s2 = "?s1\<lparr>m_timeStamps := ?ts\<rparr>"
    let ?s3 = "evictLoop now ?ts ?s2"
    have inv1: "invariant ?s1" using inv by (rule invariant_helper)
    have slot1: "m_attachments ?s1 k = Some p"
      using slot ik by (simp add: createAttachmentPromiseHelperLocked_def)
    have g1: "future_get ?r (shared_states ?s1) = future_get ?r (shared_states s)"
      using bound by (rule helper_get)
    have st: "sorted (map fst ?ts)"
      using inv by (simp add: invariant_def sorted_timeStamps_insert)
    have inv2: "invariant ?s2" using inv1 st by (rule invariant_index)
    have inv3: "invariant ?s3" using inv2 st by (rule invariant_evictLoop)
    have nin: "k \<notin> snd ` set ?ts" using un ik by (auto simp: unindexed_def)
    have "set (takeWhile (expired (m_timeout ?s2) now) ?ts) \<subseteq> set ?ts"
      by (auto dest: set_takeWhileD)
    with nin have n1: "k \<notin> snd ` set (takeWhile (expired (m_timeout ?s2) now) ?ts)" by blast
    have only: "\<forall>k' q. m_attachments ?s2 k' = Some q \<longrightarrow> state_ref q = ?r \<longrightarrow>
          k' \<notin> snd ` set (takeWhile (expired (m_timeout ?s2) now) ?ts)"
    proof (intro allI impI)
      fix k' q assume a: "m_attachments ?s2 k' = Some q" "state_ref q = ?r"
      have "k' = k"
        using inv1 slot1 a unfolding invariant_def refs_distinct_def by auto
      with n1 show "k' \<notin> snd ` set (takeWhile (expired (m_timeout ?s2) now) ?ts)" by simp
    qed
    have g3: "future_get ?r (shared_states ?s3) = future_get ?r (shared_states s)"
      using evictLoop_kept [OF only] g1 by simp
    have slot3: "m_attachments ?s3 k = Some p"
      using n1 slot1 by (simp add: evictLoop_attachments)
    have res: "shared_states (snd (createAttachment i d now s)) =
        (case m_attachments ?s3 i of None \<Rightarrow> shared_states ?s3
         | Some q \<Rightarrow> shared_states (snd (set_value q d ?s3)))"
      by (simp add: createAttachment_def Let_def split: option.splits)
    have "future_get ?r (shared_states (snd (createAttachment i d now s)))
          = future_get ?r (shared_states ?s3)"
    proof (cases "m_attachments ?s3 i")
      case None
      with res show ?thesis by simp
    next
      case (Some q)
      have "state_ref q \<noteq> ?r"
        using inv3 slot3 Some ik unfolding invariant_def refs_distinct_def by blast
      then have "future_get ?r (shared_states (snd (set_value q d ?s3)))
                 = future_get ?r (shared_states ?s3)" by (rule set_value_get)
      with res Some show ?thesis by simp
    qed
    with g3 CreateAttachment show ?thesis by simp
  qed
qed

lemma run_keeps_pending:
  "invariant s \<Longrightarrow> \<forall>c\<in>set cs. \<not> touches k c \<Longrightarrow> unindexed k s \<Longrightarrow>
   m_attachments s k = Some p \<Longrightarrow> future_retrieved p \<Longrightarrow>
   future_get (state_ref p) (shared_states (run cs s)) = future_get (state_ref p) (shared_states s)"
proof (induction cs arbitrary: s)
  case Nil
  then show ?case by simp
next
  case (Cons c cs)
  from Cons.prems have nt: "\<not> touches k c" by simp
  have k1: "m_attachments (perform c s) k = Some p \<and> unindexed k (perform c s)"
    using perform_keeps_slot [OF nt Cons.prems(3) Cons.prems(4) Cons.prems(5)] .
  have g: "future_get (state_ref p) (shared_states (perform c s))
         = future_get (state_ref p) (shared_states s)"
    using perform_keeps_pending [OF Cons.prems(1) nt Cons.prems(3) Cons.prems(4)] .
  have "future_get (state_ref p) (shared_states (run cs (perform c s)))
        = future_get (state_ref p) (shared_states (perform c s))"
    using Cons.IH [OF invariant_perform [OF Cons.prems(1)]] Cons.prems(2) k1 Cons.prems(5) by simp
  with g show ?case by simp
qed

lemma dispatch_no_prehandle:
  "\<not> prehandles m c \<Longrightarrow> a_directives s m = None \<Longrightarrow> a_directives (dispatch H c s) m = None"
  by (cases c)
     (auto simp: handleDirectiveImmediately_def preHandleDirective_def handleDirective_def
        cancelDirective_def reportResult_def split: option.splits)

lemma dispatch_all_no_prehandle:
  "\<forall>c\<in>set cs. \<not> prehandles m c \<Longrightarrow> a_directives s m = None \<Longrightarrow>
   a_directives (dispatch_all H cs s) m = None"
  by (induction cs arbitrary: s) (simp_all add: dispatch_no_prehandle)

lemma helper_creates: "m_attachments (createAttachmentPromiseHelperLocked k s) k \<noteq> None"
  by (simp add: createAttachmentPromiseHelperLocked_def)

lemma reader_never_stateless: "fst (createAttachmentReader k s) \<noteq> Inl no_state"
  using helper_creates [of k s]
  by (auto simp: createAttachmentReader_def Let_def split: option.splits)

text \<open>
  The model of the envelope produces the four strings the tests of the source expect,
  when the message id is the one the expected strings carry.
\<close>

lemma buildJsonEventString_tests:
  "buildJsonEventString ''SpeechRecognizer'' ''Recognize'' ''MessageId_Test''
     ''DialogRequestId_Test'' PAYLOAD_SPEECH_RECOGNIZER CONTEXT_TEST
     = testEventWithDialogReqIdAndContext"
  "buildJsonEventString ''SpeechRecognizer'' ''Recognize'' ''MessageId_Test''
     ''DialogRequestId_Test'' PAYLOAD_SPEECH_RECOGNIZER []
     = testEventWithDialogReqIdNoContext"
  "buildJsonEventString ''SpeechRecognizer'' ''Recognize'' ''MessageId_Test''
     [] PAYLOAD_SPEECH_RECOGNIZER []
     = testEventWithoutDialogReqIdOrContext"
  "buildJsonEventString ''SpeechRecognizer'' ''Recognize'' ''MessageId_Test''
     [] PAYLOAD_SPEECH_RECOGNIZER CONTEXT_TEST
     = testEventWithContextAndNoDialogReqId"
  by (simp_all add: buildJsonEventString_def eventHeader_def PAYLOAD_SPEECH_RECOGNIZER_def
      CONTEXT_TEST_def testEventWithDialogReqIdAndContext_def testEventWithDialogReqIdNoContext_def
      testEventWithoutDialogReqIdOrContext_def testEventWithContextAndNoDialogReqId_def)

text \<open>
  With an empty dialog-request-id the header ends after the messageId; with an empty
  context the envelope starts with the event member.
\<close>

lemma dialogRequestId_omitted:
  "buildJsonEventString ns name mid [] payload ctx =
     (if ctx = [] then ''{'' else butlast ctx @ '','')
     @ ''\"event\":{\"header\":{\"namespace\":\"'' @ ns @ ''\",\"name\":\"'' @ name
     @ ''\",\"messageId\":\"'' @ mid @ ''\"},\"payload\":'' @ payload @ ''}}''"
  by (simp add: buildJsonEventString_def eventHeader_def)

lemma context_omitted:
  "buildJsonEventString ns name mid did payload [] =
     ''{\"event\":{\"header\":{\"namespace\":\"'' @ ns @ ''\",\"name\":\"'' @ name
     @ ''\",\"messageId\":\"'' @ mid @ ''\"''
     @ (if did = [] then [] else '',\"dialogRequestId\":\"'' @ did @ ''\"'')
     @ ''},\"payload\":'' @ payload @ ''}}''"
  by (simp add: buildJsonEventString_def eventHeader_def)

text \<open>
  An id that no createAttachment call has named has no entry in the index: starting from
  a state where it has none, calls that do not provide it add none.
\<close>

lemma perform_unindexed:
  assumes "\<forall>d t. c \<noteq> CreateAttachment k d t" and "unindexed k s"
  shows "unindexed k (perform c s)"
proof (cases c)
  case (CreateAttachmentReader i)
  with assms show ?thesis by (simp add: unindexed_def reader_fields)
next
  case (CreateAttachment i d now)
  with assms(1) have ik: "i \<noteq> k" by auto
  let ?ts = "timeStamps_insert (now, i) (m_timeStamps s)"
  have nin: "k \<notin> snd ` set ?ts" using assms(2) ik by (auto simp: unindexed_def)
  have "set (dropWhile (expired (m_timeout s) now) ?ts) \<subseteq> set ?ts"
    by (rule set_dropWhile_subset)
  with nin have "k \<notin> snd ` set (dropWhile (expired (m_timeout s) now) ?ts)" by blast
  with CreateAttachment show ?thesis by (simp add: createAttachment_fields unindexed_def)
next
  case (ReleaseAttachment i)
  with assms show ?thesis by (simp add: releaseAttachment_def unindexed_def)
qed

lemma never_provided_unindexed:
  "\<forall>c\<in>set cs. \<forall>d t. c \<noteq> CreateAttachment k d t \<Longrightarrow>
   unindexed k (run cs (AttachmentManager timeout))"
proof -
  have "\<And>s. \<forall>c\<in>set cs. \<forall>d t. c \<noteq> CreateAttachment k d t \<Longrightarrow> unindexed k s \<Longrightarrow>
        unindexed k (run cs s)"
  proof (induction cs)
    case Nil
    then show ?case by simp
  next
    case (Cons c cs)
    from Cons.prems have "unindexed k (perform c s)" by (simp add: perform_unindexed)
    with Cons show ?case by simp
  qed
  moreover have "unindexed k (AttachmentManager timeout)"
    by (simp add: unindexed_def AttachmentManager_def)
  ultimately show "\<forall>c\<in>set cs. \<forall>d t. c \<noteq> CreateAttachment k d t \<Longrightarrow>
   unindexed k (run cs (AttachmentManager timeout))" by blast
qed

text \<open>
  releaseAttachment leaves the index entry of the id in place. When the id is requested
  again afterwards, the stale entry lets a later scan erase the new pending slot: with a
  timeout of one minute, \<open>A\<close> is provided at time 0 and released, a reader for
  \<open>A\<close> is created, and the provide of \<open>B\<close> two minutes later breaks that reader's
  promise.
\<close>

lemma stale_entry_reclaims_reader_slot:
  "m_attachments
     (run [CreateAttachment ''A'' (1::nat) 0, ReleaseAttachment ''A'',
           CreateAttachmentReader ''A'', CreateAttachment ''B'' 2 120000000000]
        (AttachmentManager 1)) ''A'' = None"
  "future_get 1 (shared_states
     (run [CreateAttachment ''A'' (1::nat) 0, ReleaseAttachment ''A'',
           CreateAttachmentReader ''A'', CreateAttachment ''B'' 2 120000000000]
        (AttachmentManager 1))) = Fails broken_promise"
  by (simp_all add: createAttachment_def createAttachmentReader_def releaseAttachment_def
      createAttachmentPromiseHelperLocked_def attachments_erase_def promise_destroy_def
      set_value_def AttachmentManager_def future_get_def Let_def to_minutes_def
      ticks_per_minute_def)

section \<open>Verified properties\<close>

subsection \<open>Directive lifecycle\<close>

text \<open>
  C1: handleDirective of a message id returns true and invokes the handler's handle logic
  exactly when a pre-handled directive with that id exists, which preHandleDirective
  establishes; with no matching pre-handled directive, and in particular after any calls
  none of which pre-handles the id, it returns false and the handler is not invoked (the
  state is unchanged).
\<close>

theorem handleDirective_staging:
  "(fst (handleDirective H m s) \<longleftrightarrow> a_directives s m \<noteq> None)
   \<and> (\<forall>d. a_directives s m = Some d \<longrightarrow>
          handleDirective H m s = (True, s\<lparr>a_handler := h_handleDirective H d (a_handler s)\<rparr>))
   \<and> (a_directives s m = None \<longrightarrow> handleDirective H m s = (False, s))
   \<and> (\<forall>d. d_messageId d = m \<longrightarrow> a_directives (preHandleDirective H d s) m = Some d)
   \<and> (\<forall>cs h. (\<forall>c\<in>set cs. \<not> prehandles m c) \<longrightarrow>
          handleDirective H m (dispatch_all H cs (CapabilityAgent h))
            = (False, dispatch_all H cs (CapabilityAgent h)))"
proof -
  have "\<forall>cs h. (\<forall>c\<in>set cs. \<not> prehandles m c) \<longrightarrow>
          a_directives (dispatch_all H cs (CapabilityAgent h)) m = None"
    by (simp add: dispatch_all_no_prehandle CapabilityAgent_def)
  then show ?thesis
    by (auto simp: handleDirective_def preHandleDirective_def split: option.splits)
qed

theorem handleDirective_staging_witness:
  "handleDirective MockCapabilityAgent ''MessageId_Test'' (CapabilityAgent NONE)
     = (False, CapabilityAgent NONE)
   \<and> handleDirective MockCapabilityAgent ''MessageId_Test''
        (preHandleDirective MockCapabilityAgent testDirective (CapabilityAgent NONE))
     = (True, (preHandleDirective MockCapabilityAgent testDirective (CapabilityAgent NONE))
                \<lparr>a_handler := HANDLE_DIRECTIVE\<rparr>)"
proof -
  let ?s = "CapabilityAgent NONE :: FunctionCalled agent"
  let ?s1 = "preHandleDirective MockCapabilityAgent testDirective ?s"
  have a: "a_directives ?s ''MessageId_Test'' = None"
    by (simp add: CapabilityAgent_def)
  have b: "a_directives ?s1 ''MessageId_Test'' = Some testDirective"
    by (simp add: preHandleDirective_def testDirective_def)
  have h: "h_handleDirective MockCapabilityAgent testDirective (a_handler ?s1) = HANDLE_DIRECTIVE"
    by (simp add: MockCapabilityAgent_def)
  note t0 = handleDirective_staging [of MockCapabilityAgent "''MessageId_Test''" ?s]
  note t1 = handleDirective_staging [of MockCapabilityAgent "''MessageId_Test''" ?s1]
  from t0 [THEN conjunct2, THEN conjunct2, THEN conjunct1] a
  have 1: "handleDirective MockCapabilityAgent ''MessageId_Test'' ?s = (False, ?s)" by (rule mp)
  from t1 [THEN conjunct2, THEN conjunct1, rule_format, OF b]
  have 2: "handleDirective MockCapabilityAgent ''MessageId_Test'' ?s1
      = (True, ?s1\<lparr>a_handler := h_handleDirective MockCapabilityAgent testDirective (a_handler ?s1)\<rparr>)"
    .
  from 1 2 h show ?thesis by simp
qed

text \<open>
  C2: cancelDirective of a message id with no pre-handled directive, and in particular
  after any calls none of which pre-handles the id, is a no-op: the handler is not
  invoked and the state is unchanged.
\<close>

theorem cancelDirective_noop:
  "(a_directives s m = None \<longrightarrow> cancelDirective H m s = s)
   \<and> (\<forall>cs h. (\<forall>c\<in>set cs. \<not> prehandles m c) \<longrightarrow>
          cancelDirective H m (dispatch_all H cs (CapabilityAgent h))
            = dispatch_all H cs (CapabilityAgent h))"
proof -
  have "\<forall>cs h. (\<forall>c\<in>set cs. \<not> prehandles m c) \<longrightarrow>
          a_directives (dispatch_all H cs (CapabilityAgent h)) m = None"
    by (simp add: dispatch_all_no_prehandle CapabilityAgent_def)
  then show ?thesis
    by (auto simp: cancelDirective_def split: option.splits)
qed

theorem cancelDirective_noop_witness:
  "cancelDirective MockCapabilityAgent ''MessageId_Test'' (CapabilityAgent NONE) = CapabilityAgent NONE
   \<and> cancelDirective MockCapabilityAgent ''MessageId_Test''
        (dispatch_all MockCapabilityAgent [Handle ''MessageId_Test'', Report ''MessageId_Test'']
           (CapabilityAgent NONE))
     = dispatch_all MockCapabilityAgent [Handle ''MessageId_Test'', Report ''MessageId_Test'']
           (CapabilityAgent NONE)"
proof -
  let ?s = "CapabilityAgent NONE :: FunctionCalled agent"
  let ?cs = "[Handle ''MessageId_Test'', Report ''MessageId_Test'']"
  have a: "a_directives ?s ''MessageId_Test'' = None"
    by (simp add: CapabilityAgent_def)
  have b: "\<forall>c\<in>set ?cs. \<not> prehandles ''MessageId_Test'' c" by simp
  note t = cancelDirective_noop [of ?s "''MessageId_Test''" MockCapabilityAgent]
  from t [THEN conjunct1] a
  have 1: "cancelDirective MockCapabilityAgent ''MessageId_Test'' ?s = ?s" by (rule mp)
  from t [THEN conjunct2] b
  have 2: "cancelDirective MockCapabilityAgent ''MessageId_Test''
        (dispatch_all MockCapabilityAgent ?cs (CapabilityAgent NONE))
     = dispatch_all MockCapabilityAgent ?cs (CapabilityAgent NONE)" by blast
  from 1 2 show ?thesis by (rule conjI)
qed

subsection \<open>Attachments\<close>

text \<open>
  The hand-over in both orders, for an id that has no slot yet and whose time stamps in
  the index, if any, have not reached the timeout: createAttachmentReader followed by
  createAttachment, and createAttachment followed by createAttachmentReader, both return
  normally and yield a future that resolves to the data provided.
\<close>

lemma handover_commutes:
  assumes fresh: "m_attachments s k = None"
    and rb: "refs_bounded s"
    and pos: "0 < m_timeout s"
    and live: "\<forall>e\<in>set (m_timeStamps s). snd e = k \<longrightarrow> \<not> expired (m_timeout s) now e"
  shows "(case createAttachmentReader k s of (r, s1) \<Rightarrow>
            case createAttachment k d now s1 of (x, s2) \<Rightarrow>
              x = None \<and> (case r of Inl _ \<Rightarrow> False
                           | Inr f \<Rightarrow> future_get f (shared_states s2) = Resolves d))
       \<and> (case createAttachment k d now s of (x, s1) \<Rightarrow>
            case createAttachmentReader k s1 of (r, s2) \<Rightarrow>
              x = None \<and> (case r of Inl _ \<Rightarrow> False
                           | Inr f \<Rightarrow> future_get f (shared_states s2) = Resolves d))"
proof -
  let ?n = "length (shared_states s)"
  let ?ts = "timeStamps_insert (now, k) (m_timeStamps s)"
  have keep: "k \<notin> snd ` set (takeWhile (expired (m_timeout s) now) ?ts)"
    using not_evicted [OF pos live] .
  \<comment> \<open>reader first\<close>
  define p1 where "p1 = \<lparr>state_ref = ?n, future_retrieved = True\<rparr>"
  define s1 where "s1 = s\<lparr>m_attachments := (m_attachments s)(k \<mapsto> p1),
                          shared_states := shared_states s @ [NotReady]\<rparr>"
  have r1: "createAttachmentReader k s = (Inr ?n, s1)"
    using fresh by (simp add: createAttachmentReader_def createAttachmentPromiseHelperLocked_def
        s1_def p1_def)
  define s2 where "s2 = s1\<lparr>m_timeStamps := ?ts\<rparr>"
  define s3 where "s3 = evictLoop now ?ts s2"
  have only: "\<forall>k' p. m_attachments s2 k' = Some p \<longrightarrow> state_ref p = ?n \<longrightarrow>
          k' \<notin> snd ` set (takeWhile (expired (m_timeout s2) now) ?ts)"
  proof (intro allI impI)
    fix k' p assume a: "m_attachments s2 k' = Some p" and b: "state_ref p = ?n"
    have "k' = k"
    proof (rule ccontr)
      assume "k' \<noteq> k"
      with a have "m_attachments s k' = Some p" by (simp add: s2_def s1_def)
      with rb have "state_ref p < ?n" by (simp add: refs_bounded_def)
      with b show False by simp
    qed
    with keep show "k' \<notin> snd ` set (takeWhile (expired (m_timeout s2) now) ?ts)"
      by (simp add: s2_def s1_def)
  qed
  have g3: "future_get ?n (shared_states s3) = Blocks"
    unfolding s3_def using evictLoop_kept [OF only]
    by (simp add: s2_def s1_def future_get_def)
  have a3: "m_attachments s3 k = Some p1"
    unfolding s3_def using keep by (simp add: evictLoop_attachments s2_def s1_def)
  have c1: "createAttachment k d now s1 =
        (None, s3\<lparr>shared_states := (shared_states s3)[?n := Value d]\<rparr>)"
  proof -
    have h: "createAttachmentPromiseHelperLocked k s1 = s1"
      by (rule helper_present [of _ _ p1]) (simp add: s1_def)
    have t: "m_timeStamps s1 = m_timeStamps s" by (simp add: s1_def)
    have sv: "set_value p1 d s3 = (None, s3\<lparr>shared_states := (shared_states s3)[?n := Value d]\<rparr>)"
      using g3 by (auto simp: set_value_def p1_def future_get_def split: if_splits shared_state.splits)
    show ?thesis
      unfolding createAttachment_def h t Let_def
      using a3 sv by (simp add: s3_def s2_def)
  qed
  have len3: "?n < length (shared_states s3)"
    by (simp add: s3_def s2_def s1_def)
  have A: "(case createAttachmentReader k s of (r, s1) \<Rightarrow>
            case createAttachment k d now s1 of (x, s2) \<Rightarrow>
              x = None \<and> (case r of Inl _ \<Rightarrow> False
                           | Inr f \<Rightarrow> future_get f (shared_states s2) = Resolves d))"
    using len3 by (simp add: r1 c1 future_get_def)
  \<comment> \<open>producer first\<close>
  define q where "q = \<lparr>state_ref = ?n, future_retrieved = False\<rparr>"
  define u1 where "u1 = s\<lparr>m_attachments := (m_attachments s)(k \<mapsto> q),
                          shared_states := shared_states s @ [NotReady]\<rparr>"
  define u2 where "u2 = u1\<lparr>m_timeStamps := ?ts\<rparr>"
  define u3 where "u3 = evictLoop now ?ts u2"
  have hu: "createAttachmentPromiseHelperLocked k s = u1"
    using fresh by (simp add: createAttachmentPromiseHelperLocked_def u1_def q_def)
  have onlyu: "\<forall>k' p. m_attachments u2 k' = Some p \<longrightarrow> state_ref p = ?n \<longrightarrow>
          k' \<notin> snd ` set (takeWhile (expired (m_timeout u2) now) ?ts)"
  proof (intro allI impI)
    fix k' p assume a: "m_attachments u2 k' = Some p" and b: "state_ref p = ?n"
    have "k' = k"
    proof (rule ccontr)
      assume "k' \<noteq> k"
      with a have "m_attachments s k' = Some p" by (simp add: u2_def u1_def)
      with rb have "state_ref p < ?n" by (simp add: refs_bounded_def)
      with b show False by simp
    qed
    with keep show "k' \<notin> snd ` set (takeWhile (expired (m_timeout u2) now) ?ts)"
      by (simp add: u2_def u1_def)
  qed
  have gu: "future_get ?n (shared_states u3) = Blocks"
    unfolding u3_def using evictLoop_kept [OF onlyu]
    by (simp add: u2_def u1_def future_get_def)
  have au: "m_attachments u3 k = Some q"
    unfolding u3_def using keep by (simp add: evictLoop_attachments u2_def u1_def)
  define u4 where "u4 = u3\<lparr>shared_states := (shared_states u3)[?n := Value d]\<rparr>"
  have cu: "createAttachment k d now s = (None, u4)"
  proof -
    have t: "m_timeStamps u1 = m_timeStamps s" by (simp add: u1_def)
    have sv: "set_value q d u3 = (None, u4)"
      using gu by (auto simp: set_value_def q_def u4_def future_get_def split: if_splits shared_state.splits)
    show ?thesis
      unfolding createAttachment_def hu t Let_def
      using au sv by (simp add: u3_def u2_def)
  qed
  have lenu: "?n < length (shared_states u3)"
    by (simp add: u3_def u2_def u1_def)
  have ru: "createAttachmentReader k u4 =
      (Inr ?n, u4\<lparr>m_attachments := (m_attachments u4)(k \<mapsto> q\<lparr>future_retrieved := True\<rparr>)\<rparr>)"
  proof -
    have m: "m_attachments u4 k = Some q" using au by (simp add: u4_def)
    have h: "createAttachmentPromiseHelperLocked k u4 = u4"
      using m by (rule helper_present)
    show ?thesis unfolding createAttachmentReader_def h Let_def using m by (simp add: q_def)
  qed
  have B: "(case createAttachment k d now s of (x, s1) \<Rightarrow>
            case createAttachmentReader k s1 of (r, s2) \<Rightarrow>
              x = None \<and> (case r of Inl _ \<Rightarrow> False
                           | Inr f \<Rightarrow> future_get f (shared_states s2) = Resolves d))"
  proof -
    have "future_get ?n (shared_states u4) = Resolves d"
      using lenu by (simp add: u4_def future_get_def)
    then show ?thesis by (simp add: cu ru)
  qed
  from A B show ?thesis by (rule conjI)
qed

text \<open>
  C3: createAttachmentReader followed by createAttachment, and createAttachment followed
  by createAttachmentReader, are to yield a future that resolves to the data, when both
  calls fall within the TTL of the id. The code fails this for an id that was provided
  and released before, because releaseAttachment leaves the time stamp of the id in the
  index. With a timeout of one minute, \<open>A1\<close> is provided at time 0 and released; two
  minutes later both calls are made at once, within the TTL of the new slot. Reader
  first: the provide returns normally, but its scan erases the slot it was to fulfil and
  the reader's future fails with broken_promise. Provide first: the provide erases the
  slot it has just created, and the reader gets the future of another, pending slot,
  which nothing fulfils.
\<close>

theorem stale_time_stamp_breaks_handover:
  "fst (createAttachmentReader ''A1''
         (releaseAttachment ''A1'' (snd (createAttachment ''A1'' (1::nat) 0 (AttachmentManager 1)))))
     = Inr 1
   \<and> createAttachment ''A1'' 7 120000000000
         (snd (createAttachmentReader ''A1''
           (releaseAttachment ''A1'' (snd (createAttachment ''A1'' (1::nat) 0 (AttachmentManager 1))))))
     = (None,
        \<lparr>m_timeout = 1, m_attachments = Map.empty, m_timeStamps = [(120000000000, ''A1'')],
         shared_states = [Value 1, Exception broken_promise]\<rparr>)
   \<and> future_get 1 (shared_states (snd (createAttachment ''A1'' 7 120000000000
         (snd (createAttachmentReader ''A1''
           (releaseAttachment ''A1'' (snd (createAttachment ''A1'' (1::nat) 0 (AttachmentManager 1)))))))))
     = Fails broken_promise
   \<and> createAttachment ''A1'' 7 120000000000
         (releaseAttachment ''A1'' (snd (createAttachment ''A1'' (1::nat) 0 (AttachmentManager 1))))
     = (None,
        \<lparr>m_timeout = 1, m_attachments = Map.empty, m_timeStamps = [(120000000000, ''A1'')],
         shared_states = [Value 1, Exception broken_promise]\<rparr>)
   \<and> fst (createAttachmentReader ''A1'' (snd (createAttachment ''A1'' 7 120000000000
         (releaseAttachment ''A1'' (snd (createAttachment ''A1'' (1::nat) 0 (AttachmentManager 1)))))))
     = Inr 2
   \<and> future_get 2 (shared_states (snd (createAttachmentReader ''A1''
         (snd (createAttachment ''A1'' 7 120000000000
           (releaseAttachment ''A1'' (snd (createAttachment ''A1'' (1::nat) 0 (AttachmentManager 1)))))))))
     = Blocks"
  by (simp add: createAttachment_def createAttachmentReader_def releaseAttachment_def
      createAttachmentPromiseHelperLocked_def attachments_erase_def promise_destroy_def
      set_value_def AttachmentManager_def future_get_def Let_def to_minutes_def
      ticks_per_minute_def fun_eq_iff)




text \<open>
  C5: when the slot of an id is pending and a consumer holds its future, releaseAttachment
  of that id makes the future fail (with broken_promise) instead of blocking, and removes
  the slot.
\<close>

theorem release_pending_fails:
  assumes "m_attachments s k = Some p"
    and "future_get (state_ref p) (shared_states s) = Blocks"
  shows "future_get (state_ref p) (shared_states (releaseAttachment k s)) = Fails broken_promise
         \<and> m_attachments (releaseAttachment k s) k = None"
  using assms
  by (auto simp: releaseAttachment_def attachments_erase_def promise_destroy_def future_get_def
           split: if_splits shared_state.splits)

theorem release_pending_fails_witness:
  "m_attachments (snd (createAttachmentReader ''A1'' (AttachmentManager 720 :: nat manager))) ''A1''
     = Some \<lparr>state_ref = 0, future_retrieved = True\<rparr>
   \<and> future_get 0 (shared_states (snd (createAttachmentReader ''A1'' (AttachmentManager 720 :: nat manager))))
     = Blocks
   \<and> future_get 0 (shared_states (releaseAttachment ''A1''
        (snd (createAttachmentReader ''A1'' (AttachmentManager 720 :: nat manager)))))
     = Fails broken_promise"
proof -
  let ?s = "snd (createAttachmentReader ''A1'' (AttachmentManager 720 :: nat manager))"
  let ?p = "\<lparr>state_ref = 0, future_retrieved = True\<rparr>"
  have h1: "m_attachments ?s ''A1'' = Some ?p"
    by (simp add: createAttachmentReader_def createAttachmentPromiseHelperLocked_def
        AttachmentManager_def)
  have h2: "future_get (state_ref ?p) (shared_states ?s) = Blocks"
    by (simp add: createAttachmentReader_def createAttachmentPromiseHelperLocked_def
        AttachmentManager_def future_get_def)
  from release_pending_fails [OF h1 h2]
  have a: "future_get 0 (shared_states (releaseAttachment ''A1'' ?s)) = Fails broken_promise"
    by simp
  from h1 h2 a show ?thesis by simp
qed

text \<open>
  C6: with a timeout of zero and a clock that has not run backwards, a createAttachment
  call evicts every slot in the eviction index, the one of the call itself included: the
  index is empty afterwards, none of those ids has a slot, the call returns normally and
  no future is fulfilled by it.
\<close>

theorem zero_ttl_evicts_all:
  assumes zero: "m_timeout s = 0"
    and mono: "\<forall>e\<in>set (m_timeStamps s). fst e \<le> now"
  shows "(case createAttachment k d now s of (x, s') \<Rightarrow>
            x = None \<and> m_timeStamps s' = [] \<and> m_attachments s' k = None
            \<and> (\<forall>e\<in>set (m_timeStamps s). m_attachments s' (snd e) = None)
            \<and> (\<forall>r v. future_get r (shared_states s') = Resolves v
                       \<longrightarrow> future_get r (shared_states s) = Resolves v))"
proof -
  let ?ts = "timeStamps_insert (now, k) (m_timeStamps s)"
  let ?s1 = "createAttachmentPromiseHelperLocked k s"
  let ?s2 = "?s1\<lparr>m_timeStamps := ?ts\<rparr>"
  let ?s3 = "evictLoop now ?ts ?s2"
  have all: "\<forall>e\<in>set ?ts. expired 0 now e"
  proof
    fix e assume "e \<in> set ?ts"
    then have "fst e \<le> now" using mono by auto
    then have "0 \<le> to_minutes (now - fst e)" by (simp add: to_minutes_nonneg)
    then show "expired 0 now e" by (simp add: expired_def)
  qed
  then have tw: "takeWhile (expired 0 now) ?ts = ?ts" and dw: "dropWhile (expired 0 now) ?ts = []"
    by simp_all
  have gone: "\<forall>i\<in>snd ` set ?ts. m_attachments ?s3 i = None"
    by (simp add: evictLoop_attachments zero tw)
  then have nk: "m_attachments ?s3 k = None" by simp
  have res: "createAttachment k d now s = (None, ?s3)"
    unfolding createAttachment_def Let_def using nk by simp
  have ts3: "m_timeStamps ?s3 = []" by (simp add: evictLoop_timeStamps zero dw)
  have old: "\<forall>e\<in>set (m_timeStamps s). m_attachments ?s3 (snd e) = None"
    using gone by simp
  have val: "\<forall>r v. future_get r (shared_states ?s3) = Resolves v
                       \<longrightarrow> future_get r (shared_states s) = Resolves v"
    by (simp add: evictLoop_resolves helper_resolves)
  show ?thesis unfolding res using nk ts3 old val by simp
qed

theorem zero_ttl_evicts_all_witness:
  "m_timeout (snd (createAttachmentReader ''A1'' (AttachmentManager 0 :: nat manager))) = 0
   \<and> m_attachments (snd (createAttachment ''A1'' 7 5
        (snd (createAttachmentReader ''A1'' (AttachmentManager 0 :: nat manager))))) ''A1'' = None
   \<and> m_timeStamps (snd (createAttachment ''A1'' 7 5
        (snd (createAttachmentReader ''A1'' (AttachmentManager 0 :: nat manager))))) = []"
proof -
  let ?s = "snd (createAttachmentReader ''A1'' (AttachmentManager 0 :: nat manager))"
  have h1: "m_timeout ?s = 0"
    by (simp add: createAttachmentReader_def createAttachmentPromiseHelperLocked_def
        AttachmentManager_def)
  have h2: "\<forall>e\<in>set (m_timeStamps ?s). fst e \<le> 5"
    by (simp add: createAttachmentReader_def createAttachmentPromiseHelperLocked_def
        AttachmentManager_def)
  note t = zero_ttl_evicts_all [OF h1 h2, where k = "''A1''" and d = 7, unfolded case_prod_beta]
  from t have a: "m_attachments (snd (createAttachment ''A1'' 7 5 ?s)) ''A1'' = None"
    and b: "m_timeStamps (snd (createAttachment ''A1'' 7 5 ?s)) = []"
    by simp_all
  from h1 a b show ?thesis by simp
qed

text \<open>
  C7: on an ordered index, the scan of a createAttachment call removes the longest
  leading run of entries whose age has reached the timeout and stops at the first entry
  within it, and the id of every entry it visits before that point loses its slot. Hence,
  of two entries with the first strictly older, the younger is not evicted unless the
  older is, and every entry past the timeout is evicted by the scan.
\<close>

theorem eviction_oldest_first:
  assumes srt: "sorted (map fst (m_timeStamps s))"
  shows "(let idx = timeStamps_insert (now, k) (m_timeStamps s);
              s' = snd (createAttachment k d now s)
          in m_timeStamps s' = dropWhile (expired (m_timeout s) now) idx
           \<and> (\<forall>e\<in>set (takeWhile (expired (m_timeout s) now) idx). m_attachments s' (snd e) = None)
           \<and> (\<forall>a\<in>set idx. \<forall>b\<in>set idx. fst a < fst b \<longrightarrow> b \<notin> set (m_timeStamps s') \<longrightarrow>
                 a \<notin> set (m_timeStamps s') \<and> m_attachments s' (snd a) = None)
           \<and> (\<forall>a\<in>set idx. expired (m_timeout s) now a \<longrightarrow>
                 a \<notin> set (m_timeStamps s') \<and> m_attachments s' (snd a) = None))"
proof -
  let ?P = "expired (m_timeout s) now"
  define idx where "idx = timeStamps_insert (now, k) (m_timeStamps s)"
  define s' where "s' = snd (createAttachment k d now s)"
  have sidx: "sorted (map fst idx)"
    unfolding idx_def using srt by (rule sorted_timeStamps_insert)
  have c1: "m_timeStamps s' = dropWhile ?P idx"
    by (simp add: s'_def idx_def createAttachment_fields)
  have c2: "\<forall>e\<in>set (takeWhile ?P idx). m_attachments s' (snd e) = None"
    by (simp add: s'_def idx_def createAttachment_fields)
  have tw: "set (takeWhile ?P idx) = {e \<in> set idx. ?P e}"
    using sidx by (rule sorted_takeWhile_filter)
  have dw: "set (m_timeStamps s') = {e \<in> set idx. \<not> ?P e}"
    unfolding c1 using sorted_dropWhile_filter [OF sidx, of "m_timeout s" now] by auto
  have c4: "\<forall>a\<in>set idx. ?P a \<longrightarrow> a \<notin> set (m_timeStamps s') \<and> m_attachments s' (snd a) = None"
    using c2 tw dw by auto
  have c3: "\<forall>a\<in>set idx. \<forall>b\<in>set idx. fst a < fst b \<longrightarrow> b \<notin> set (m_timeStamps s') \<longrightarrow>
             a \<notin> set (m_timeStamps s') \<and> m_attachments s' (snd a) = None"
  proof (intro ballI impI)
    fix a b assume a: "a \<in> set idx" and b: "b \<in> set idx" and lt: "fst a < fst b"
      and nb: "b \<notin> set (m_timeStamps s')"
    from b nb dw have "?P b" by simp
    with lt have "?P a" using expired_antimono [of a b] by simp
    with a c4 show "a \<notin> set (m_timeStamps s') \<and> m_attachments s' (snd a) = None" by simp
  qed
  from c1 c2 c3 c4 show ?thesis
    unfolding Let_def idx_def [symmetric] s'_def [symmetric] by simp
qed

theorem eviction_oldest_first_witness:
  "sorted (map fst [(0::int, ''A''), (60000000000, ''B'')])
   \<and> m_timeStamps (snd (createAttachment ''C'' (5::nat) 90000000000
        \<lparr>m_timeout = 1, m_attachments = Map.empty,
         m_timeStamps = [(0, ''A''), (60000000000, ''B'')], shared_states = []\<rparr>))
     = [(60000000000, ''B''), (90000000000, ''C'')]"
proof -
  let ?s = "\<lparr>m_timeout = 1, m_attachments = Map.empty,
         m_timeStamps = [(0, ''A''), (60000000000, ''B'')], shared_states = []\<rparr> :: nat manager"
  have h: "sorted (map fst (m_timeStamps ?s))" by simp
  note t = eviction_oldest_first [OF h, where now = 90000000000 and k = "''C''" and d = 5,
      unfolded Let_def]
  from t [THEN conjunct1]
  have a: "m_timeStamps (snd (createAttachment ''C'' 5 90000000000 ?s))
      = [(60000000000, ''B''), (90000000000, ''C'')]"
    by (simp add: expired_def to_minutes_def ticks_per_minute_def)
  from h a show ?thesis by simp
qed

text \<open>
  C9 (as stated): after fulfilment, a second createAttachmentReader of the id would again
  give a handle that resolves to the stream. It does not: on a fresh manager, after
  createAttachment and one createAttachmentReader of \<open>A1\<close>, the second
  createAttachmentReader throws future_already_retrieved.
\<close>

theorem second_reader_counterexample:
  "fst (createAttachmentReader ''A1'' (snd (createAttachmentReader ''A1''
        (snd (createAttachment ''A1'' (7::nat) 0 (AttachmentManager 720))))))
     = Inl future_already_retrieved"
  by (simp add: createAttachmentReader_def createAttachment_def createAttachmentPromiseHelperLocked_def
      AttachmentManager_def set_value_def Let_def to_minutes_def)

text \<open>
  C9 (amended): once the slot of an id is fulfilled, the first createAttachmentReader of
  the id returns a future that resolves to the fulfilled stream; every later
  createAttachmentReader of the id, while the slot is there, throws
  future_already_retrieved and returns no handle, leaving the state unchanged.
\<close>

theorem reader_after_fulfilment:
  assumes slot: "m_attachments s k = Some p"
    and val: "future_get (state_ref p) (shared_states s) = Resolves v"
  shows "(\<not> future_retrieved p \<longrightarrow>
           (case createAttachmentReader k s of (r, s1) \<Rightarrow>
              r = Inr (state_ref p)
              \<and> future_get (state_ref p) (shared_states s1) = Resolves v
              \<and> fst (createAttachmentReader k s1) = Inl future_already_retrieved))
       \<and> (future_retrieved p \<longrightarrow>
            createAttachmentReader k s = (Inl future_already_retrieved, s))"
  using slot val
  by (simp add: createAttachmentReader_def createAttachmentPromiseHelperLocked_def Let_def)

theorem reader_after_fulfilment_witness:
  "m_attachments (snd (createAttachment ''A1'' (7::nat) 0 (AttachmentManager 720))) ''A1''
     = Some \<lparr>state_ref = 0, future_retrieved = False\<rparr>
   \<and> future_get 0 (shared_states (snd (createAttachment ''A1'' (7::nat) 0 (AttachmentManager 720))))
     = Resolves 7
   \<and> fst (createAttachmentReader ''A1'' (snd (createAttachment ''A1'' (7::nat) 0 (AttachmentManager 720))))
     = Inr 0
   \<and> future_get 0 (shared_states (snd (createAttachmentReader ''A1''
        (snd (createAttachment ''A1'' (7::nat) 0 (AttachmentManager 720))))))
     = Resolves 7"
proof -
  let ?s = "snd (createAttachment ''A1'' (7::nat) 0 (AttachmentManager 720))"
  let ?p = "\<lparr>state_ref = 0, future_retrieved = False\<rparr>"
  have h1: "m_attachments ?s ''A1'' = Some ?p"
    by (simp add: createAttachment_def createAttachmentPromiseHelperLocked_def
        AttachmentManager_def set_value_def Let_def)
  have h2: "future_get (state_ref ?p) (shared_states ?s) = Resolves 7"
    by (simp add: createAttachment_def createAttachmentPromiseHelperLocked_def
        AttachmentManager_def set_value_def Let_def future_get_def)
  note t = reader_after_fulfilment [OF h1 h2, unfolded case_prod_beta]
  from t [THEN conjunct1]
  have a: "fst (createAttachmentReader ''A1'' ?s) = Inr 0
     \<and> future_get 0 (shared_states (snd (createAttachmentReader ''A1'' ?s))) = Resolves 7"
    by simp
  from h1 h2 a show ?thesis by simp
qed

text \<open>
  C10: createAttachmentReader records no time stamp. When an id has no entry in the
  eviction index (no createAttachment was called for it) and no slot, the slot that
  createAttachmentReader creates stays in the table, pending, with the id still absent
  from the index, through every sequence of calls that neither provides nor releases that
  id, whatever those calls evict; releaseAttachment of the id removes it.
\<close>

theorem reader_slot_not_reclaimed:
  assumes inv: "invariant s"
    and fresh: "m_attachments s k = None"
    and un: "unindexed k s"
    and others: "\<forall>c\<in>set cs. \<not> touches k c"
  shows "(case createAttachmentReader k s of (r, s1) \<Rightarrow>
           m_timeStamps s1 = m_timeStamps s
           \<and> unindexed k (run cs s1)
           \<and> m_attachments (run cs s1) k = m_attachments s1 k
           \<and> m_attachments s1 k \<noteq> None
           \<and> (case r of Inl _ \<Rightarrow> False
               | Inr f \<Rightarrow> future_get f (shared_states (run cs s1)) = Blocks)
           \<and> m_attachments (releaseAttachment k (run cs s1)) k = None)"
proof -
  let ?n = "length (shared_states s)"
  let ?p = "\<lparr>state_ref = ?n, future_retrieved = True\<rparr>"
  let ?s1 = "s\<lparr>m_attachments := (m_attachments s)(k \<mapsto> ?p),
                shared_states := shared_states s @ [NotReady]\<rparr>"
  have r: "createAttachmentReader k s = (Inr ?n, ?s1)"
    using fresh by (simp add: createAttachmentReader_def createAttachmentPromiseHelperLocked_def)
  have inv1: "invariant ?s1"
    using invariant_reader [OF inv, of k] by (simp add: r)
  have un1: "unindexed k ?s1" using un by (simp add: unindexed_def)
  have slot1: "m_attachments ?s1 k = Some ?p" by simp
  have ret: "future_retrieved ?p" by simp
  have keep: "m_attachments (run cs ?s1) k = Some ?p \<and> unindexed k (run cs ?s1)"
    using run_keeps_slot [OF others un1 slot1 ret] .
  have "future_get (state_ref ?p) (shared_states (run cs ?s1))
        = future_get (state_ref ?p) (shared_states ?s1)"
    using run_keeps_pending [OF inv1 others un1 slot1 ret] .
  then have pend: "future_get ?n (shared_states (run cs ?s1)) = Blocks"
    by (simp add: future_get_def)
  have rel: "m_attachments (releaseAttachment k (run cs ?s1)) k = None"
    by (simp add: releaseAttachment_def)
  show ?thesis unfolding r using keep pend rel by simp
qed

theorem reader_slot_not_reclaimed_witness:
  "invariant (AttachmentManager 0 :: nat manager)
   \<and> unindexed ''A1'' (AttachmentManager 0 :: nat manager)
   \<and> list_all (\<lambda>c. \<not> touches ''A1'' c)
         [CreateAttachment ''B'' (3::nat) 0, ReleaseAttachment ''B'',
          CreateAttachment ''C'' 4 600000000000]
   \<and> future_get 0 (shared_states
        (run [CreateAttachment ''B'' (3::nat) 0, ReleaseAttachment ''B'',
              CreateAttachment ''C'' 4 600000000000]
           (snd (createAttachmentReader ''A1'' (AttachmentManager 0 :: nat manager)))))
     = Blocks"
proof -
  let ?s = "AttachmentManager 0 :: nat manager"
  let ?cs = "[CreateAttachment ''B'' (3::nat) 0, ReleaseAttachment ''B'',
              CreateAttachment ''C'' 4 600000000000]"
  have h1: "invariant ?s" by (rule invariant_init)
  have h2: "m_attachments ?s ''A1'' = None" by (simp add: AttachmentManager_def)
  have h3: "unindexed ''A1'' ?s" by (simp add: unindexed_def AttachmentManager_def)
  have h4: "\<forall>c\<in>set ?cs. \<not> touches ''A1'' c" by simp
  have r: "fst (createAttachmentReader ''A1'' ?s) = Inr 0"
    by (simp add: createAttachmentReader_def createAttachmentPromiseHelperLocked_def
        AttachmentManager_def)
  note t = reader_slot_not_reclaimed [OF h1 h2 h3 h4, unfolded case_prod_beta]
  from t r
  have a: "future_get 0 (shared_states (run ?cs (snd (createAttachmentReader ''A1'' ?s)))) = Blocks"
    by simp
  have h5: "list_all (\<lambda>c. \<not> touches ''A1'' c) ?cs" by simp
  from h1 h3 h5 a show ?thesis by (intro conjI)
qed

end
